theory Spec2Isabelle
  imports Main
begin

section \<open>JavaScript strings\<close>

text \<open>
  A JavaScript string is modelled as a \<open>string\<close>: the list of its characters, and
  beyond ASCII the bytes of its UTF-8 form. The built-in string methods the plugin calls
  are total functions on it. Positions count the elements of the list; the plugin hands
  positions to the editor only, which counts in the same way.
\<close>

text \<open>\<open>s.startsWith(t)\<close>.\<close>

definition startsWith :: "string \<Rightarrow> string \<Rightarrow> bool" where
  "startsWith s t = (take (length t) s = t)"

text \<open>
  \<open>s.indexOf(t)\<close>: the least position at which \<open>t\<close> starts in \<open>s\<close>, and \<open>-1\<close> when
  there is none. The empty string is found at position 0.
\<close>

fun indexOf :: "string \<Rightarrow> string \<Rightarrow> int" where
  "indexOf [] t = (if t = [] then 0 else -1)"
| "indexOf (c # s) t =
     (if startsWith (c # s) t then 0
      else (let k = indexOf s t in if k = -1 then -1 else k + 1))"

text \<open>\<open>s.substr(start, len)\<close> for non-negative arguments.\<close>

definition substr :: "string \<Rightarrow> nat \<Rightarrow> nat \<Rightarrow> string" where
  "substr s start len = take len (drop start s)"

text \<open>
  \<open>s.replace(pat, rep)\<close> with a string pattern: the first occurrence only. (The
  replacement patterns \<open>$&\<close>, \<open>$1\<close>, ... do not arise: the plugin's replacement is the
  empty string.)
\<close>

definition js_replace :: "string \<Rightarrow> string \<Rightarrow> string \<Rightarrow> string" where
  "js_replace s pat rep =
     (let k = indexOf s pat in
      if k = -1 then s else take (nat k) s @ rep @ drop (nat k + length pat) s)"

text \<open>\<open>s.split(sep)\<close> for a separator of one character: never the empty list.\<close>

fun split :: "char \<Rightarrow> string \<Rightarrow> string list" where
  "split sep [] = [[]]"
| "split sep (c # cs) =
     (if c = sep then [] # split sep cs
      else (case split sep cs of [] \<Rightarrow> [[c]] | l # ls \<Rightarrow> (c # l) # ls))"

abbreviation newline :: char where
  "newline \<equiv> CHR 0x0A"

section \<open>Platform detection\<close>

text \<open>\<open>getOS\<close> (main.ts, lines 157-168), with \<open>navigator.appVersion\<close> as its argument.\<close>

definition getOS :: "string \<Rightarrow> string" where
  "getOS appVersion =
     (if indexOf appVersion ''Win'' \<noteq> -1 then ''Windows''
      else if indexOf appVersion ''Mac'' \<noteq> -1 then ''MacOS''
      else if indexOf appVersion ''X11'' \<noteq> -1 then ''Linux''
      else ''Unknown OS'')"

section \<open>Errors, libraries and the host\<close>

text \<open>
  The exceptions the plugin's code can raise: a \<open>TypeError\<close> where a property of
  \<open>null\<close> or \<open>undefined\<close> is read, a \<open>URIError\<close> from \<open>decodeURI\<close> or \<open>encodeURI\<close>.
\<close>

datatype error = TypeError | URIError

record date =
  year :: nat
  month :: nat
  day :: nat

text \<open>
  The library functions the plugin imports: Node's \<open>path\<close> module, the built-ins
  \<open>toLowerCase\<close>, \<open>decodeURI\<close> and \<open>encodeURI\<close>, and \<open>moment(d).format(f)\<close>. The plugin's
  functions take them as a parameter; \<open>node\<close> below is the instance on macOS.
\<close>

record lib =
  path_extname :: "string \<Rightarrow> string"
  path_resolve :: "string \<Rightarrow> string \<Rightarrow> string"
  path_join :: "string \<Rightarrow> string \<Rightarrow> string"
  toLowerCase :: "string \<Rightarrow> string"
  decodeURI :: "string \<Rightarrow> error + string"
  encodeURI :: "string \<Rightarrow> error + string"
  moment_format :: "string \<Rightarrow> date \<Rightarrow> string"

text \<open>\<open>TFolder\<close> and \<open>TAbstractFile\<close> of the host, as far as the plugin reads them.\<close>

record tfolder =
  folder_path :: string

record tfile =
  file_path :: string
  file_parent :: "tfolder option"

text \<open>
  What the plugin reads from its surroundings during one paste:
  \<open>navigator.appVersion\<close>, Electron's \<open>clipboard.read\<close>, the clock, the string
  \<open>(Math.random() + 1).toString(36)\<close>, the vault adapter's \<open>getName()\<close> and
  \<open>getBasePath()\<close>, \<open>vault.config.attachmentFolderPath\<close>,
  \<open>workspace.getActiveFile()\<close>, \<open>vault.getAbstractFileByPath\<close> and the setting
  \<open>settings.avifPath\<close>.
\<close>

record host =
  appVersion :: string
  clipboard_read :: "string \<Rightarrow> string"
  now :: date
  random36 :: string
  getName :: string
  getBasePath :: string
  attachmentFolderPath :: string
  getActiveFile :: "tfile option"
  getAbstractFileByPath :: "string \<Rightarrow> tfile option"
  settings_avifPath :: string

text \<open>A \<open>File\<close> of the clipboard's file list, and the paste event.\<close>

record clip_file =
  file_type :: string

record clipboard_event =
  files :: "clip_file list"

section \<open>The editor\<close>

text \<open>
  The editor with its selection: the text before the selection, the selected text and the
  text after it. \<open>replaceSelection\<close> puts the replacement in place of the selected text
  and leaves the cursor behind it.
\<close>

record editor_state =
  text_before :: string
  selection :: string
  text_after :: string

definition getValue :: "editor_state \<Rightarrow> string" where
  "getValue e = text_before e @ selection e @ text_after e"

definition replaceSelection :: "string \<Rightarrow> editor_state \<Rightarrow> editor_state" where
  "replaceSelection replacement e = e\<lparr>text_before := text_before e @ replacement, selection := []\<rparr>"

text \<open>
  \<open>replaceRange\<close> and \<open>replaceFirstOccurrence\<close> read and write the text only, so for
  them the editor is its text. A position is a line number and a column; the lines are
  those of \<open>split newline\<close>, and the offset of a position counts every earlier line and its
  line break.
\<close>

type_synonym pos = "nat \<times> nat"

definition posToOffset :: "string \<Rightarrow> pos \<Rightarrow> nat" where
  "posToOffset text p =
     (\<Sum>l\<leftarrow>take (fst p) (split newline text). Suc (length l)) + snd p"

definition replaceRange :: "string \<Rightarrow> pos \<Rightarrow> pos \<Rightarrow> string \<Rightarrow> string" where
  "replaceRange replacement from to text =
     take (posToOffset text from) text @ replacement @ drop (posToOffset text to) text"

section \<open>The plugin's state\<close>

text \<open>
  \<open>child_process.exec\<close> starts a process and calls back when it has ended. The two
  callbacks of \<open>getAvifPasteFile\<close> are kept as data: the one after the pngpaste dump
  (with \<open>pngPath\<close> and \<open>fullAvifPath\<close>) and the one after the encoder (with
  \<open>fullAvifPath\<close>).
\<close>

datatype callback = AfterDump string string | AfterEncode string

datatype exec_error = ExitStatus nat | SpawnError string

record exec_result =
  exec_err :: "exec_error option"
  stdout :: string
  stderr :: string

datatype log = Log string | Debug string string | LogExec exec_result

text \<open>
  The state a paste changes: the editor, the console, the commands given to
  \<open>child_process.exec\<close> so far (each one starts a process), the processes still running
  with their callbacks, and whether \<open>evt.preventDefault()\<close> was called.
\<close>

record state =
  editor :: editor_state
  console :: "log list"
  spawned :: "string list"
  pending :: "(string \<times> callback) list"
  defaultPrevented :: bool

definition console_log :: "log \<Rightarrow> state \<Rightarrow> state" where
  "console_log m st = st\<lparr>console := console st @ [m]\<rparr>"

section \<open>The plugin\<close>

text \<open>The functions of \<open>main.ts\<close>, in the order they depend on each other.\<close>

text \<open>
  \<open>execute\<close> (lines 17-22), the call: the process is started and the callback waits.
\<close>

definition execute :: "string \<Rightarrow> callback \<Rightarrow> state \<Rightarrow> state" where
  "execute command cb st =
     st\<lparr>spawned := spawned st @ [command], pending := pending st @ [(command, cb)]\<rparr>"

text \<open>\<open>isAssetTypeAnImage\<close> (lines 150-156).\<close>

definition isAssetTypeAnImage :: "lib \<Rightarrow> string \<Rightarrow> bool" where
  "isAssetTypeAnImage L path =
     (toLowerCase L (path_extname L path)
        \<in> set [''.png'', ''.jpg'', ''.jpeg'', ''.bmp'', ''.gif'', ''.svg'', ''.tiff''])"

text \<open>\<open>isCopyImageFile\<close> (lines 133-149).\<close>

definition isCopyImageFile :: "lib \<Rightarrow> host \<Rightarrow> bool" where
  "isCopyImageFile L H =
     (let os = getOS (appVersion H);
          filePath =
            (if os = ''Windows'' then
               filter (\<lambda>c. c \<noteq> CHR 0x00) (clipboard_read H ''FileNameW'')
             else if os = ''MacOS'' then
               js_replace (clipboard_read H ''public.file-url'') ''file://'' []
             else [])
      in isAssetTypeAnImage L filePath)"

text \<open>\<open>getFileName\<close> (lines 173-175) and \<open>insertTemporaryText\<close> (lines 169-171).\<close>

definition getFileName :: "lib \<Rightarrow> string \<Rightarrow> error + string" where
  "getFileName L fn =
     (case encodeURI L fn of Inl e \<Rightarrow> Inl e | Inr u \<Rightarrow> Inr (''file:///'' @ u))"

definition insertTemporaryText :: "lib \<Rightarrow> string \<Rightarrow> editor_state \<Rightarrow> error + editor_state" where
  "insertTemporaryText L progressText e =
     (case getFileName L progressText of
        Inl err \<Rightarrow> Inl err
      | Inr uri \<Rightarrow> Inr (replaceSelection (''![]('' @ uri @ '')'' @ [newline]) e))"

text \<open>\<open>getFileAssetPath\<close> (lines 216-235).\<close>

definition getFileAssetPath :: "lib \<Rightarrow> host \<Rightarrow> error + string" where
  "getFileAssetPath L H =
     (let basePath = getBasePath H;
          assetFolder = attachmentFolderPath H
      in case getActiveFile H of
           None \<Rightarrow> Inl TypeError
         | Some af \<Rightarrow>
             (let activeFile = getAbstractFileByPath H (file_path af) in
              if startsWith assetFolder ''./'' then
                (case activeFile of
                   None \<Rightarrow> Inl TypeError
                 | Some f \<Rightarrow>
                     (case file_parent f of
                        None \<Rightarrow> Inl TypeError
                      | Some p \<Rightarrow>
                          (case decodeURI L (path_resolve L basePath (folder_path p)) of
                             Inl e \<Rightarrow> Inl e
                           | Inr activeFolder \<Rightarrow> Inr (path_join L activeFolder assetFolder))))
              else Inr (path_join L basePath assetFolder)))"

text \<open>
  \<open>getAvifPasteFile\<close> (lines 112-131): the names, the four debug lines and the start of
  Job 1, the pngpaste dump. It returns \<open>fullAvifPath\<close>.
\<close>

definition randomPrefix :: "lib \<Rightarrow> host \<Rightarrow> string" where
  "randomPrefix L H =
     (let timebase = moment_format L ''-YYYYMMDD-'' (now H);
          baseFile = getName H
      in baseFile @ timebase @ substr (random36 H) 2 7)"

definition getAvifPasteFile :: "lib \<Rightarrow> host \<Rightarrow> state \<Rightarrow> error + string \<times> state" where
  "getAvifPasteFile L H st =
     (let pngPath = randomPrefix L H @ ''.png'';
          avifPath = randomPrefix L H @ ''.avif''
      in case getFileAssetPath L H of
           Inl e \<Rightarrow> Inl e
         | Inr dir \<Rightarrow>
             (let fullAvifPath = dir @ ''/'' @ avifPath;
                  st1 = console_log (Debug ''pngpath:'' pngPath) st;
                  st2 = console_log (Debug ''avifpath:'' avifPath) st1;
                  st3 = console_log (Debug ''full avifpath:'' fullAvifPath) st2;
                  st4 = console_log (Debug ''full avif exec path:'' (settings_avifPath H)) st3
              in Inr (fullAvifPath,
                      execute (''/usr/local/bin/pngpaste /tmp/'' @ pngPath)
                        (AfterDump pngPath fullAvifPath) st4)))"

text \<open>
  The two callbacks (lines 125-129). After the dump, whatever its result, Job 2 (the
  encoder) is started; after the encoder, whatever its result, the text is inserted.
\<close>

fun run_callback :: "lib \<Rightarrow> host \<Rightarrow> callback \<Rightarrow> exec_result \<Rightarrow> state \<Rightarrow> error + state" where
  "run_callback L H (AfterDump pngPath fullAvifPath) r st =
     Inr (execute (settings_avifPath H @ '' --fast -e /tmp/'' @ pngPath @ '' -o '' @ [CHR 0x22]
                     @ fullAvifPath @ [CHR 0x22])
            (AfterEncode fullAvifPath) st)"
| "run_callback L H (AfterEncode fullAvifPath) r st =
     (case insertTemporaryText L fullAvifPath (editor st) of
        Inl e \<Rightarrow> Inl e
      | Inr e' \<Rightarrow> Inr (st\<lparr>editor := e'\<rparr>))"

text \<open>
  \<open>execute\<close> (lines 18-21), the completion: process number \<open>i\<close> of the running ones ends
  with result \<open>r\<close>; the result is logged and the callback runs.
\<close>

definition exec_done :: "lib \<Rightarrow> host \<Rightarrow> nat \<Rightarrow> exec_result \<Rightarrow> state \<Rightarrow> error + state" where
  "exec_done L H i r st =
     (if i < length (pending st) then
        run_callback L H (snd (pending st ! i)) r
          (console_log (LogExec r)
             (st\<lparr>pending := take i (pending st) @ drop (Suc i) (pending st)\<rparr>))
      else Inr st)"

text \<open>The condition of the paste handler (lines 97-101), with JavaScript's \<open>||\<close>.\<close>

definition pasteCondition :: "lib \<Rightarrow> host \<Rightarrow> clipboard_event \<Rightarrow> error + bool" where
  "pasteCondition L H evt =
     (if isCopyImageFile L H then Inr True
      else if length (files evt) \<noteq> 0 then Inr True
      else (case files evt of
              [] \<Rightarrow> Inl TypeError
            | f # _ \<Rightarrow> Inr (startsWith (file_type f) ''image'')))"

text \<open>The paste handler of \<open>setupPasteHandler\<close> (lines 90-108).\<close>

definition pasteHandler :: "lib \<Rightarrow> host \<Rightarrow> clipboard_event \<Rightarrow> state \<Rightarrow> error + state" where
  "pasteHandler L H evt st =
     (let os = getOS (appVersion H) in
      if os \<noteq> ''MacOS'' then
        Inr (console_log (Log (''not macos, pic won'' @ [CHR 0x27] @ ''t be processed'')) st)
      else
        (case pasteCondition L H evt of
           Inl e \<Rightarrow> Inl e
         | Inr True \<Rightarrow>
             (case getAvifPasteFile L H (console_log (Log ''pasting image'') st) of
                Inl e \<Rightarrow> Inl e
              | Inr (avif, st') \<Rightarrow> Inr (st'\<lparr>defaultPrevented := True\<rparr>))
         | Inr False \<Rightarrow> Inr (console_log (Log ''cannot paste'') st)))"

text \<open>
  \<open>replaceFirstOccurrence\<close> (lines 200-215): the loop over the lines, from line \<open>i\<close> on,
  and the function itself.
\<close>

function replaceFirstOccurrence_loop ::
  "string list \<Rightarrow> string \<Rightarrow> string \<Rightarrow> nat \<Rightarrow> string \<Rightarrow> string" where
  "replaceFirstOccurrence_loop lines target replacement i text =
     (if i < length lines then
        (let ch = indexOf (lines ! i) target in
         if ch \<noteq> -1 then
           replaceRange replacement (i, nat ch) (i, nat ch + length target) text
         else replaceFirstOccurrence_loop lines target replacement (i + 1) text)
      else text)"
  by pat_completeness auto
termination
  by (relation "measure (\<lambda>(lines, target, replacement, i, text). length lines - i)") auto

definition replaceFirstOccurrence :: "string \<Rightarrow> string \<Rightarrow> string \<Rightarrow> string" where
  "replaceFirstOccurrence text target replacement =
     replaceFirstOccurrence_loop (split newline text) target replacement 0 text"

text \<open>\<open>progressTextFor\<close>, \<open>embedMarkDownImage\<close> and \<open>handleFailedUpload\<close> (lines 176-198).\<close>

definition progressTextFor :: "string \<Rightarrow> string" where
  "progressTextFor ident = ''![Uploading file...'' @ ident @ '']()''"

definition embedMarkDownImage :: "string \<Rightarrow> string \<Rightarrow> string \<Rightarrow> string" where
  "embedMarkDownImage text pasteId imageUrl =
     replaceFirstOccurrence text (progressTextFor pasteId) (''![]('' @ imageUrl @ '')'')"

text \<open>The message of \<open>handleFailedUpload\<close> starts with a warning sign and its variation selector.\<close>

definition handleFailedUpload :: "string \<Rightarrow> string \<Rightarrow> string" where
  "handleFailedUpload text pasteId =
     replaceFirstOccurrence text (progressTextFor pasteId)
       ([CHR 0xE2, CHR 0x9A, CHR 0xA0, CHR 0xEF, CHR 0xB8, CHR 0x8F]
          @ ''upload failed, check dev console'')"

section \<open>The libraries on macOS\<close>

text \<open>
  Node's \<open>path\<close> module in its POSIX form, after its documented behaviour. \<open>Array.join\<close>
  first.
\<close>

fun array_join :: "string \<Rightarrow> string list \<Rightarrow> string" where
  "array_join sep [] = []"
| "array_join sep [x] = x"
| "array_join sep (x # y # xs) = x @ sep @ array_join sep (y # xs)"

text \<open>
  \<open>normalizeString\<close>: the path is read segment by segment; empty segments and \<open>.\<close> are
  dropped, \<open>..\<close> removes the segment before it, or is kept when there is none to remove
  and the path may rise above its start. The segments kept so far are held last first.
\<close>

definition normalize_step :: "bool \<Rightarrow> string list \<Rightarrow> string \<Rightarrow> string list" where
  "normalize_step allowAboveRoot kept seg =
     (if seg = [] \<or> seg = ''.'' then kept
      else if seg = ''..'' then
        (case kept of
           [] \<Rightarrow> if allowAboveRoot then [''..''] else []
         | seg0 # below \<Rightarrow>
             if seg0 = ''..'' then (if allowAboveRoot then ''..'' # kept else kept)
             else below)
      else seg # kept)"

definition normalizeString :: "string \<Rightarrow> bool \<Rightarrow> string" where
  "normalizeString path allowAboveRoot =
     array_join ''/'' (rev (foldl (normalize_step allowAboveRoot) [] (split CHR ''/'' path)))"

definition posix_normalize :: "string \<Rightarrow> string" where
  "posix_normalize path =
     (if path = [] then ''.''
      else
        (let isAbsolute = (hd path = CHR ''/'');
             trailingSeparator = (last path = CHR ''/'');
             p = normalizeString path (\<not> isAbsolute)
         in if p = [] then (if isAbsolute then ''/'' else if trailingSeparator then ''./'' else ''.'')
            else (if isAbsolute then ''/'' else []) @ p @ (if trailingSeparator then ''/'' else [])))"

text \<open>\<open>path.join(a, b)\<close>: the non-empty arguments, joined by \<open>/\<close> and normalized.\<close>

definition posix_join :: "string \<Rightarrow> string \<Rightarrow> string" where
  "posix_join a b =
     (case filter (\<lambda>arg. arg \<noteq> []) [a, b] of
        [] \<Rightarrow> ''.''
      | parts \<Rightarrow> posix_normalize (array_join ''/'' parts))"

text \<open>
  \<open>path.resolve(a, b)\<close>: the arguments are read from the right, then the working
  directory, until the path is absolute; the result has no trailing separator.
\<close>

definition resolve_step :: "string \<Rightarrow> string \<times> bool \<Rightarrow> string \<times> bool" where
  "resolve_step path acc =
     (case acc of (resolvedPath, resolvedAbsolute) \<Rightarrow>
        if resolvedAbsolute \<or> path = [] then acc
        else (path @ ''/'' @ resolvedPath, hd path = CHR ''/''))"

definition posix_resolve :: "string \<Rightarrow> string \<Rightarrow> string \<Rightarrow> string" where
  "posix_resolve cwd a b =
     (case resolve_step cwd (resolve_step a (resolve_step b ([], False))) of
        (resolvedPath, resolvedAbsolute) \<Rightarrow>
          (let p = normalizeString resolvedPath (\<not> resolvedAbsolute)
           in if resolvedAbsolute then ''/'' @ p else if p = [] then ''.'' else p))"

text \<open>
  \<open>path.extname(path)\<close>: in the last segment of the path (separators at the end aside),
  the text from the last dot on; empty when there is no dot, when the only dot starts the
  segment, and for the segment \<open>..\<close>.
\<close>

definition posix_extname :: "string \<Rightarrow> string" where
  "posix_extname path =
     (case filter (\<lambda>seg. seg \<noteq> []) (split CHR ''/'' path) of
        [] \<Rightarrow> []
      | seg # segs \<Rightarrow>
          (let base = last (seg # segs);
               startDot = length base - Suc (length (takeWhile (\<lambda>c. c \<noteq> CHR ''.'') (rev base)))
           in if CHR ''.'' \<notin> set base \<or> startDot = 0 \<or> base = ''..'' then []
              else drop startDot base))"

text \<open>
  \<open>toLowerCase\<close> on the letters A to Z. (Of the characters it leaves alone, none is
  turned by JavaScript into a letter of the seven extensions.)
\<close>

definition ascii_toLowerCase :: "string \<Rightarrow> string" where
  "ascii_toLowerCase s =
     map (\<lambda>c. case map_of (zip ''ABCDEFGHIJKLMNOPQRSTUVWXYZ'' ''abcdefghijklmnopqrstuvwxyz'') c of
                None \<Rightarrow> c
              | Some l \<Rightarrow> l) s"

text \<open>
  \<open>encodeURI\<close> and \<open>decodeURI\<close> on strings read as UTF-8 bytes. \<open>encodeURI\<close> keeps the
  letters, the digits and the characters \<open>;/?:@&=+$,#-_.!~*'()\<close>, and escapes every other
  byte as \<open>%XX\<close>.
\<close>

definition hexchar :: "nat \<Rightarrow> char" where
  "hexchar n = ''0123456789ABCDEF'' ! n"

definition uri_reserved :: "char set" where
  "uri_reserved = set '';/?:@&=+$,#''"

definition uri_unescaped :: "char \<Rightarrow> bool" where
  "uri_unescaped c =
     (c \<in> set ''ABCDEFGHIJKLMNOPQRSTUVWXYZabcdefghijklmnopqrstuvwxyz0123456789''
      \<or> c \<in> uri_reserved \<or> c \<in> set (''-_.!~*()'' @ [CHR 0x27]))"

definition utf8_encodeURI :: "string \<Rightarrow> error + string" where
  "utf8_encodeURI s =
     Inr (concat (map (\<lambda>c. if uri_unescaped c then [c]
                            else [CHR ''%'', hexchar ((of_char c :: nat) div 16),
                                  hexchar ((of_char c :: nat) mod 16)]) s))"

text \<open>
  \<open>decodeURI\<close>: an escape \<open>%XX\<close> below 128 becomes its character, unless that is one
  of \<open>;/?:@&=+$,#\<close>, when the escape stays; escapes from 128 on must spell one UTF-8
  encoded code point, which becomes its bytes. Anything else after a \<open>%\<close> is a
  \<open>URIError\<close>.
\<close>

definition hexdigit :: "char \<Rightarrow> nat option" where
  "hexdigit c =
     map_of (zip ''0123456789ABCDEFabcdef''
               [0, 1, 2, 3, 4, 5, 6, 7, 8, 9, 10, 11, 12, 13, 14, 15, 10, 11, 12, 13, 14, 15]) c"

definition read_escape :: "string \<Rightarrow> nat option" where
  "read_escape s =
     (case s of
        p # a # b # _ \<Rightarrow>
          (if p = CHR ''%'' then
             (case hexdigit a of
                None \<Rightarrow> None
              | Some x \<Rightarrow> (case hexdigit b of None \<Rightarrow> None | Some y \<Rightarrow> Some (16 * x + y)))
           else None)
      | _ \<Rightarrow> None)"

fun read_continuations :: "nat \<Rightarrow> string \<Rightarrow> nat list option" where
  "read_continuations 0 s = Some []"
| "read_continuations (Suc n) s =
     (case read_escape s of
        None \<Rightarrow> None
      | Some b \<Rightarrow>
          if 128 \<le> b \<and> b < 192 then map_option ((#) b) (read_continuations n (drop 3 s))
          else None)"

definition utf8_octets :: "nat \<Rightarrow> nat" where
  "utf8_octets b =
     (if 192 \<le> b \<and> b < 224 then 2 else if 224 \<le> b \<and> b < 240 then 3
      else if 240 \<le> b \<and> b < 248 then 4 else 0)"

definition utf8_code_point :: "nat \<Rightarrow> nat list \<Rightarrow> nat" where
  "utf8_code_point b cont =
     foldl (\<lambda>v c. 64 * v + c mod 64) (b mod 2 ^ (7 - Suc (length cont))) cont"

definition utf8_valid :: "nat \<Rightarrow> nat \<Rightarrow> bool" where
  "utf8_valid n v =
     (if n = 2 then 128 \<le> v
      else if n = 3 then 2048 \<le> v \<and> \<not> (55296 \<le> v \<and> v \<le> 57343)
      else 65536 \<le> v \<and> v \<le> 1114111)"

text \<open>The text an escape at the head of \<open>s\<close> decodes to, and the characters it takes.\<close>

definition decode_escape :: "string \<Rightarrow> (string \<times> nat) option" where
  "decode_escape s =
     (case read_escape s of
        None \<Rightarrow> None
      | Some b \<Rightarrow>
          if b < 128 then
            Some (if char_of b \<in> uri_reserved then take 3 s else [char_of b], 3)
          else
            (let n = utf8_octets b in
             if n = 0 then None
             else
               (case read_continuations (n - 1) (drop 3 s) of
                  None \<Rightarrow> None
                | Some cont \<Rightarrow>
                    if utf8_valid n (utf8_code_point b cont)
                    then Some (map char_of (b # cont), 3 * n) else None)))"

fun utf8_decodeURI :: "string \<Rightarrow> error + string" where
  "utf8_decodeURI [] = Inr []"
| "utf8_decodeURI (c # cs) =
     (if c \<noteq> CHR ''%'' then
        (case utf8_decodeURI cs of Inl e \<Rightarrow> Inl e | Inr r \<Rightarrow> Inr (c # r))
      else
        (case decode_escape (c # cs) of
           None \<Rightarrow> Inl URIError
         | Some (out, k) \<Rightarrow>
             (case utf8_decodeURI (drop (k - 1) cs) of Inl e \<Rightarrow> Inl e | Inr r \<Rightarrow> Inr (out @ r))))"

text \<open>
  \<open>moment(d).format(f)\<close> for the tokens \<open>YYYY\<close>, \<open>MM\<close> and \<open>DD\<close>, the ones of the
  plugin's format string; every other character of \<open>f\<close> is copied. \<open>YYYY\<close> is the year
  filled with zeros to four digits, and all its digits, unsigned, when it has more.
\<close>

definition digit :: "nat \<Rightarrow> char" where
  "digit n = ''0123456789'' ! (n mod 10)"

fun decimal :: "nat \<Rightarrow> string" where
  "decimal n = (if n < 10 then [digit n] else decimal (n div 10) @ [digit n])"

fun zeroFill :: "nat \<Rightarrow> nat \<Rightarrow> string" where
  "zeroFill 0 n = []"
| "zeroFill (Suc w) n = zeroFill w (n div 10) @ [digit n]"

fun format_date :: "string \<Rightarrow> date \<Rightarrow> string" where
  "format_date [] d = []"
| "format_date (c # cs) d =
     (if take 4 (c # cs) = ''YYYY'' then
        (if year d \<le> 9999 then zeroFill 4 (year d) else decimal (year d))
          @ format_date (drop 3 cs) d
      else if take 2 (c # cs) = ''MM'' then zeroFill 2 (month d) @ format_date (drop 1 cs) d
      else if take 2 (c # cs) = ''DD'' then zeroFill 2 (day d) @ format_date (drop 1 cs) d
      else c # format_date cs d)"

text \<open>The instance, for a process whose working directory is \<open>cwd\<close>.\<close>

definition node :: "string \<Rightarrow> lib" where
  "node cwd =
     \<lparr>path_extname = posix_extname,
      path_resolve = posix_resolve cwd,
      path_join = posix_join,
      toLowerCase = ascii_toLowerCase,
      decodeURI = utf8_decodeURI,
      encodeURI = utf8_encodeURI,
      moment_format = format_date\<rparr>"

section \<open>The decision as the specification words it\<close>

text \<open>
  The specification's reading of the paste condition on macOS, for comparison with
  \<open>pasteCondition\<close>: the disjunction of (a) the clipboard's file URL has an image
  extension, (b) the file list is not empty, (c) the first file's type starts with
  "image". Without a first file, (c) is false.
\<close>

definition macos_decision_spec :: "lib \<Rightarrow> host \<Rightarrow> clipboard_event \<Rightarrow> bool" where
  "macos_decision_spec L H evt =
     (toLowerCase L
        (path_extname L (js_replace (clipboard_read H ''public.file-url'') ''file://'' []))
        \<in> set [''.png'', ''.jpg'', ''.jpeg'', ''.bmp'', ''.gif'', ''.svg'', ''.tiff'']
      \<or> length (files evt) \<noteq> 0
      \<or> (case files evt of [] \<Rightarrow> False | f # _ \<Rightarrow> startsWith (file_type f) ''image''))"

section \<open>A paste up to the end of Job 1\<close>

text \<open>
  The paste handler runs, and then the process it started, the last of the running ones,
  ends with result \<open>r\<close>.
\<close>

definition paste_then_dump_ends ::
  "lib \<Rightarrow> host \<Rightarrow> clipboard_event \<Rightarrow> exec_result \<Rightarrow> state \<Rightarrow> error + state" where
  "paste_then_dump_ends L H evt r st =
     (case pasteHandler L H evt st of
        Inl e \<Rightarrow> Inl e
      | Inr st1 \<Rightarrow> exec_done L H (length (pending st)) r st1)"

section \<open>Concrete inputs\<close>

text \<open>
  A vault \<open>/Users/me/vault\<close> on a Mac with the note \<open>notes/a.md\<close> open, attachments kept
  beside the note (\<open>./\<close>), and nothing but text on the clipboard.
\<close>

definition note_file :: tfile where
  "note_file = \<lparr>file_path = ''notes/a.md'', file_parent = Some \<lparr>folder_path = ''notes''\<rparr>\<rparr>"

definition mac_host :: host where
  "mac_host =
     \<lparr>appVersion = ''5.0 (Macintosh; Intel Mac OS X 10_15_7)'',
      clipboard_read = (\<lambda>format. []),
      now = \<lparr>year = 2024, month = 3, day = 9\<rparr>,
      random36 = ''1.q8x2k5m9trk'',
      getName = ''vault'',
      getBasePath = ''/Users/me/vault'',
      attachmentFolderPath = ''./'',
      getActiveFile = Some note_file,
      getAbstractFileByPath = (\<lambda>p. if p = ''notes/a.md'' then Some note_file else None),
      settings_avifPath = ''/Users/me/go/bin/avif''\<rparr>"

text \<open>The same with the attachments in the folder \<open>attachments\<close> of the vault.\<close>

definition root_folder_host :: host where
  "root_folder_host = mac_host\<lparr>attachmentFolderPath := ''attachments''\<rparr>"

text \<open>The same on Windows.\<close>

definition windows_host :: host where
  "windows_host = mac_host\<lparr>appVersion := ''5.0 (Windows NT 10.0; Win64; x64)''\<rparr>"

text \<open>
  The same when \<open>Math.random()\<close> gives 0.5: \<open>(0.5 + 1).toString(36)\<close> is \<open>1.i\<close>.
\<close>

definition half_draw_host :: host where
  "half_draw_host = root_folder_host\<lparr>random36 := ''1.i''\<rparr>"

definition text_paste :: clipboard_event where
  "text_paste = \<lparr>files = []\<rparr>"

definition image_paste :: clipboard_event where
  "image_paste = \<lparr>files = [\<lparr>file_type = ''image/png''\<rparr>]\<rparr>"

definition idle_state :: state where
  "idle_state =
     \<lparr>editor = \<lparr>text_before = ''# Note'' @ [newline], selection = ''old'', text_after = [newline] @ ''end''\<rparr>,
      console = [], spawned = [], pending = [], defaultPrevented = False\<rparr>"

text \<open>Job 1 ending with exit status 1: there is no image on the clipboard.\<close>

definition failed_dump :: exec_result where
  "failed_dump =
     \<lparr>exec_err = Some (ExitStatus 1), stdout = [],
      stderr = ''pngpaste: No image data found on the clipboard''\<rparr>"

text \<open>A document with the placeholder of the paste \<open>abc\<close> on two lines.\<close>

definition two_placeholders :: string where
  "two_placeholders =
     ''a ![Uploading file...abc]()'' @ [newline] @ ''![Uploading file...abc]() b''"

section \<open>Properties of the string methods\<close>

lemma startsWith_iff: "startsWith s t \<longleftrightarrow> (\<exists>post. s = t @ post)"
proof
  assume "startsWith s t"
  then have "s = t @ drop (length t) s"
    by (metis append_take_drop_id startsWith_def)
  then show "\<exists>post. s = t @ post" ..
next
  assume "\<exists>post. s = t @ post"
  then show "startsWith s t" by (auto simp: startsWith_def)
qed

lemma indexOf_ge: "- 1 \<le> indexOf s t"
  by (induction s) (auto simp: Let_def)

lemma indexOf_found:
  "indexOf s t \<noteq> - 1 \<Longrightarrow> 0 \<le> indexOf s t \<and> startsWith (drop (nat (indexOf s t)) s) t"
proof (induction s)
  case Nil
  then show ?case by (auto simp: startsWith_def split: if_splits)
next
  case (Cons c s)
  show ?case
  proof (cases "startsWith (c # s) t")
    case True
    then show ?thesis by simp
  next
    case False
    with Cons.prems have k: "indexOf s t \<noteq> - 1"
      by (auto simp: Let_def split: if_splits)
    with Cons.IH have ih: "0 \<le> indexOf s t" "startsWith (drop (nat (indexOf s t)) s) t"
      by simp_all
    from False k have eq: "indexOf (c # s) t = indexOf s t + 1"
      by (simp add: Let_def)
    from ih(1) have "nat (indexOf s t + 1) = Suc (nat (indexOf s t))" by simp
    with eq ih show ?thesis by simp
  qed
qed

lemma indexOf_least:
  "k < nat (indexOf s t) \<Longrightarrow> indexOf s t \<noteq> - 1 \<Longrightarrow> \<not> startsWith (drop k s) t"
proof (induction s arbitrary: k)
  case Nil
  then show ?case by (auto split: if_splits)
next
  case (Cons c s)
  show ?case
  proof (cases "startsWith (c # s) t")
    case True
    with Cons.prems show ?thesis by simp
  next
    case False
    with Cons.prems have kk: "indexOf s t \<noteq> - 1"
      by (auto simp: Let_def split: if_splits)
    with False have eq: "indexOf (c # s) t = indexOf s t + 1"
      by (simp add: Let_def)
    from indexOf_found [OF kk] have "0 \<le> indexOf s t" by simp
    with eq have n: "nat (indexOf (c # s) t) = Suc (nat (indexOf s t))" by simp
    show ?thesis
    proof (cases k)
      case 0
      with False show ?thesis by simp
    next
      case (Suc j)
      with Cons.prems(1) n have "j < nat (indexOf s t)" by simp
      from Cons.IH [OF this kk] Suc show ?thesis by simp
    qed
  qed
qed

lemma indexOf_absent: "indexOf s t = - 1 \<Longrightarrow> \<not> startsWith (drop k s) t"
proof (induction s arbitrary: k)
  case Nil
  then show ?case by (auto simp: startsWith_def split: if_splits)
next
  case (Cons c s)
  from Cons.prems have nf: "\<not> startsWith (c # s) t" and k: "indexOf s t = - 1"
    using indexOf_ge [of s t] by (auto simp: Let_def split: if_splits)
  show ?case
  proof (cases k)
    case 0
    with nf show ?thesis by simp
  next
    case (Suc j)
    with Cons.IH [OF k] show ?thesis by simp
  qed
qed

text \<open>\<open>indexOf\<close> finds \<open>t\<close> exactly when \<open>t\<close> occurs in \<open>s\<close>.\<close>

lemma indexOf_iff: "indexOf s t \<noteq> - 1 \<longleftrightarrow> (\<exists>pre post. s = pre @ t @ post)"
proof
  assume "indexOf s t \<noteq> - 1"
  from indexOf_found [OF this] obtain post
    where "drop (nat (indexOf s t)) s = t @ post"
    by (auto simp: startsWith_iff)
  then have "s = take (nat (indexOf s t)) s @ t @ post"
    by (metis append_take_drop_id)
  then show "\<exists>pre post. s = pre @ t @ post" by blast
next
  assume "\<exists>pre post. s = pre @ t @ post"
  then obtain pre post where s: "s = pre @ t @ post" by blast
  show "indexOf s t \<noteq> - 1"
  proof
    assume "indexOf s t = - 1"
    from indexOf_absent [OF this, of "length pre"] s show False
      by (simp add: startsWith_def)
  qed
qed

section \<open>Lines and the replacement of the first occurrence\<close>

declare replaceFirstOccurrence_loop.simps [simp del]

lemma split_not_Nil: "split sep s \<noteq> []"
  by (induction s) (auto split: list.splits)

lemma array_join_Cons: "ls \<noteq> [] \<Longrightarrow> array_join sep (l # ls) = l @ sep @ array_join sep ls"
  by (cases ls) simp_all

lemma array_join_split: "array_join [sep] (split sep s) = s"
proof (induction s)
  case Nil
  show ?case by simp
next
  case (Cons c s)
  show ?case
  proof (cases "c = sep")
    case True
    with Cons show ?thesis by (simp add: array_join_Cons split_not_Nil)
  next
    case False
    obtain l ls where sp: "split sep s = l # ls"
      using split_not_Nil [of sep s] by (cases "split sep s") auto
    with Cons have "s = array_join [sep] (l # ls)" by simp
    with False sp show ?thesis by (cases ls) simp_all
  qed
qed

lemma array_join_nth:
  "i < length ls \<Longrightarrow>
   \<exists>rest. array_join [sep] ls = concat (map (\<lambda>l. l @ [sep]) (take i ls)) @ ls ! i @ rest"
proof (induction ls arbitrary: i)
  case Nil
  then show ?case by simp
next
  case (Cons l ls)
  show ?case
  proof (cases i)
    case 0
    show ?thesis
    proof (cases "ls = []")
      case True
      with 0 show ?thesis by simp
    next
      case False
      with 0 show ?thesis by (simp add: array_join_Cons)
    qed
  next
    case (Suc k)
    with Cons.prems have k: "k < length ls" by simp
    then have ne: "ls \<noteq> []" by auto
    from Cons.IH [OF k] obtain rest
      where "array_join [sep] ls = concat (map (\<lambda>l. l @ [sep]) (take k ls)) @ ls ! k @ rest"
      by blast
    with Suc ne show ?thesis by (simp add: array_join_Cons)
  qed
qed

lemma text_at_line:
  assumes "i < length (split sep s)"
  shows "\<exists>rest. s = concat (map (\<lambda>l. l @ [sep]) (take i (split sep s))) @ split sep s ! i @ rest"
  using array_join_nth [OF assms, of sep] by (simp add: array_join_split)

lemma length_lines_before:
  "length (concat (map (\<lambda>l. l @ [sep]) ls)) = (\<Sum>l\<leftarrow>ls. Suc (length l))"
  by (induction ls) simp_all

lemma loop_skips:
  "\<forall>j. i \<le> j \<and> j < length ls \<longrightarrow> indexOf (ls ! j) t = - 1 \<Longrightarrow>
   replaceFirstOccurrence_loop ls t r i doc = doc"
proof (induction ls t r i doc rule: replaceFirstOccurrence_loop.induct)
  case (1 lines target replacement i doc)
  show ?case
  proof (cases "i < length lines")
    case True
    with "1.prems" have a: "indexOf (lines ! i) target = - 1" by simp
    from "1.prems" have "\<forall>j. i + 1 \<le> j \<and> j < length lines \<longrightarrow> indexOf (lines ! j) target = - 1"
      by simp
    with "1.IH" True a
    have "replaceFirstOccurrence_loop lines target replacement (i + 1) doc = doc"
      by simp
    with True a show ?thesis
      by (subst replaceFirstOccurrence_loop.simps) simp
  next
    case False
    then show ?thesis by (subst replaceFirstOccurrence_loop.simps) simp
  qed
qed

lemma loop_finds:
  "i \<le> k \<Longrightarrow> k < length ls \<Longrightarrow> indexOf (ls ! k) t \<noteq> - 1 \<Longrightarrow>
   \<forall>j. i \<le> j \<and> j < k \<longrightarrow> indexOf (ls ! j) t = - 1 \<Longrightarrow>
   replaceFirstOccurrence_loop ls t r i doc =
     replaceRange r (k, nat (indexOf (ls ! k) t)) (k, nat (indexOf (ls ! k) t) + length t) doc"
proof (induction ls t r i doc rule: replaceFirstOccurrence_loop.induct)
  case (1 lines target replacement i doc)
  from "1.prems" have il: "i < length lines" by simp
  show ?case
  proof (cases "i = k")
    case True
    with il "1.prems" show ?thesis
      by (subst replaceFirstOccurrence_loop.simps) (simp add: Let_def)
  next
    case False
    with "1.prems" have ik: "i < k" and a: "indexOf (lines ! i) target = - 1" by simp_all
    from ik "1.prems" have
      "replaceFirstOccurrence_loop lines target replacement (i + 1) doc =
       replaceRange replacement (k, nat (indexOf (lines ! k) target))
         (k, nat (indexOf (lines ! k) target) + length target) doc"
      using "1.IH" [OF il refl] a by simp
    with il a show ?thesis
      by (subst replaceFirstOccurrence_loop.simps) simp
  qed
qed


lemma indexOf_le_length: "indexOf s t \<le> int (length s)"
  by (induction s) (auto simp: Let_def)

lemma line_occurrence_in_text:
  assumes "i < length (split sep s)" and "\<exists>p q. split sep s ! i = p @ t @ q"
  shows "\<exists>p q. s = p @ t @ q"
proof -
  from text_at_line [OF assms(1)] obtain rest
    where s: "s = concat (map (\<lambda>l. l @ [sep]) (take i (split sep s))) @ split sep s ! i @ rest"
    by blast
  from assms(2) obtain p q where l: "split sep s ! i = p @ t @ q" by blast
  have "s = (concat (map (\<lambda>l. l @ [sep]) (take i (split sep s))) @ p) @ t @ (q @ rest)"
    by (subst s, subst l) simp
  then show ?thesis by blast
qed

text \<open>An occurrence of a text without line breaks lies in one line.\<close>

lemma split_lines_free: "l \<in> set (split sep s) \<Longrightarrow> sep \<notin> set l"
proof (induction s arbitrary: l)
  case Nil
  then show ?case by simp
next
  case (Cons c s)
  show ?case
  proof (cases "c = sep")
    case True
    with Cons show ?thesis by auto
  next
    case False
    obtain x xs where sp: "split sep s = x # xs"
      using split_not_Nil [of sep s] by (cases "split sep s") auto
    with False Cons.prems have "l = c # x \<or> l \<in> set xs" by simp
    then show ?thesis
    proof
      assume "l = c # x"
      moreover from sp Cons.IH [of x] have "sep \<notin> set x" by simp
      ultimately show ?thesis using False by simp
    next
      assume "l \<in> set xs"
      with sp Cons.IH [of l] show ?thesis by simp
    qed
  qed
qed

lemma occurrence_in_one_line:
  assumes "ls \<noteq> []" and "\<forall>l\<in>set ls. sep \<notin> set l" and "sep \<notin> set t"
    and "array_join [sep] ls = p @ t @ q"
  shows "\<exists>m c. m < length ls \<and> length p = (\<Sum>l\<leftarrow>take m ls. Suc (length l)) + c
           \<and> c \<le> length (ls ! m) \<and> startsWith (drop c (ls ! m)) t"
  using assms
proof (induction ls arbitrary: p)
  case Nil
  then show ?case by simp
next
  case (Cons l ls)
  show ?case
  proof (cases "ls = []")
    case True
    with Cons.prems have "l = p @ t @ q" by simp
    then have "startsWith (drop (length p) l) t" "length p \<le> length l"
      by (simp_all add: startsWith_def)
    then show ?thesis by (intro exI [of _ 0] exI [of _ "length p"]) simp
  next
    case False
    with Cons.prems have eq: "l @ sep # array_join [sep] ls = p @ t @ q"
      by (simp add: array_join_Cons)
    show ?thesis
    proof (cases "length p \<le> length l")
      case True
      have "length (p @ t) \<le> length l"
      proof (rule ccontr)
        assume "\<not> length (p @ t) \<le> length l"
        then have lt: "length l < length (p @ t)" by simp
        from eq have "(p @ t @ q) ! length l = sep"
          by (metis nth_append_length)
        with lt have "(p @ t) ! length l = sep"
          by (metis append.assoc nth_append)
        with True lt have "t ! (length l - length p) = sep"
          by (simp add: nth_append)
        moreover from True lt have "length l - length p < length t" by simp
        ultimately have "sep \<in> set t" by (metis nth_mem)
        with Cons.prems show False by simp
      qed
      then have le: "length (p @ t) \<le> length l" .
      from eq have "take (length (p @ t)) (l @ sep # array_join [sep] ls)
          = take (length (p @ t)) (p @ t @ q)" by simp
      with le have "take (length (p @ t)) l = p @ t" by simp
      then have "l = p @ t @ drop (length (p @ t)) l"
        by (metis append.assoc append_take_drop_id)
      then have "drop (length p) l = t @ drop (length (p @ t)) l"
        by (metis append_eq_conv_conj)
      then have "startsWith (drop (length p) l) t"
        by (simp add: startsWith_def)
      with True show ?thesis by (intro exI [of _ 0] exI [of _ "length p"]) simp
    next
      case False
      then have "length l < length p" by simp
      then obtain d where d: "length p - length l = Suc d"
        by (metis Suc_diff_Suc)
      from eq have "take (length p) (l @ sep # array_join [sep] ls)
          = take (length p) (p @ t @ q)" by simp
      with \<open>length l < length p\<close> d
      have p: "p = l @ sep # take d (array_join [sep] ls)" by simp
      define p' where "p' = take d (array_join [sep] ls)"
      from p have p: "p = l @ sep # p'" by (simp add: p'_def)
      with eq have "array_join [sep] ls = p' @ t @ q" by simp
      from Cons.IH [OF \<open>ls \<noteq> []\<close> _ _ this] Cons.prems
      obtain m c where "m < length ls"
        "length p' = (\<Sum>l\<leftarrow>take m ls. Suc (length l)) + c"
        "c \<le> length (ls ! m)" "startsWith (drop c (ls ! m)) t"
        by auto
      with p show ?thesis
        by (intro exI [of _ "Suc m"] exI [of _ c]) simp
    qed
  qed
qed


lemma offset_mono:
  assumes "k < m" and "m \<le> length ls"
  shows "(\<Sum>l\<leftarrow>take k ls. Suc (length l)) + Suc (length (ls ! k))
           \<le> (\<Sum>l\<leftarrow>take m ls. Suc (length l))"
proof -
  from assms have k: "k < length ls" by simp
  from assms have "take m ls = take (Suc k) ls @ take (m - Suc k) (drop (Suc k) ls)"
    by (metis Suc_leI le_add_diff_inverse take_add)
  also from k have "take (Suc k) ls = take k ls @ [ls ! k]"
    by (rule take_Suc_conv_app_nth)
  finally show ?thesis by simp
qed

lemma replaceFirstOccurrence_at_first:
  assumes i: "i < length (split newline doc)"
    and occ: "\<exists>p q. split newline doc ! i = p @ target @ q"
  shows "\<exists>k c pre post.
           k \<le> i
         \<and> (\<forall>m<k. \<not> (\<exists>p q. split newline doc ! m = p @ target @ q))
         \<and> (\<exists>q. split newline doc ! k = take c (split newline doc ! k) @ target @ q)
         \<and> (\<forall>c'<c. \<not> startsWith (drop c' (split newline doc ! k)) target)
         \<and> length pre = posToOffset doc (k, c)
         \<and> doc = pre @ target @ post
         \<and> (\<forall>p' q'. doc = p' @ target @ q' \<longrightarrow> length pre \<le> length p')
         \<and> replaceFirstOccurrence doc target replacement = pre @ replacement @ post"
proof -
  define ls where "ls = split newline doc"
  define P where "P m \<longleftrightarrow> indexOf (ls ! m) target \<noteq> - 1" for m
  from occ have "P i" by (simp add: P_def ls_def indexOf_iff)
  then obtain k where k: "P k" and least: "\<And>m. m < k \<Longrightarrow> \<not> P m"
    using exists_least_iff [of P] by blast
  from least \<open>P i\<close> have ki: "k \<le> i" by (meson not_less)
  with i have kl: "k < length ls" by (simp add: ls_def)
  define line where "line = ls ! k"
  define c where "c = nat (indexOf line target)"
  from k have found: "indexOf line target \<noteq> - 1" by (simp add: P_def line_def)
  from indexOf_found [OF found] have nonneg: "0 \<le> indexOf line target"
    and sw: "startsWith (drop c line) target" by (simp_all add: c_def)
  from sw obtain q where q: "drop c line = target @ q" by (auto simp: startsWith_iff)
  have cl: "c \<le> length line"
    using indexOf_le_length [of line target] nonneg by (simp add: c_def)
  have line_eq: "line = take c line @ target @ q"
    using q by (metis append_take_drop_id)
  define B where "B = concat (map (\<lambda>l. l @ [newline]) (take k ls))"
  from text_at_line [of k newline doc] kl obtain rest where doc: "doc = B @ line @ rest"
    by (auto simp: ls_def B_def line_def)
  define pre where "pre = B @ take c line"
  define post where "post = q @ rest"
  have doc_eq: "doc = pre @ target @ post"
    by (subst doc, subst line_eq) (simp add: pre_def post_def)
  have lpre: "length pre = (\<Sum>l\<leftarrow>take k ls. Suc (length l)) + c"
    using cl by (simp add: pre_def B_def length_lines_before)
  have off: "posToOffset doc (k, c) = length pre"
    by (simp add: posToOffset_def lpre ls_def)
  have off2: "posToOffset doc (k, c + length target) = length pre + length target"
    using off by (simp add: posToOffset_def)
  have "replaceFirstOccurrence doc target replacement =
        replaceRange replacement (k, c) (k, c + length target) doc"
    unfolding replaceFirstOccurrence_def c_def line_def ls_def [symmetric]
    using kl k least by (intro loop_finds) (auto simp: P_def)
  also have "\<dots> = take (length pre) doc @ replacement @ drop (length pre + length target) doc"
    by (simp add: replaceRange_def off off2)
  also have "\<dots> = pre @ replacement @ post"
    by (subst (1 2) doc_eq) simp
  finally have res: "replaceFirstOccurrence doc target replacement = pre @ replacement @ post" .
  have top: "\<forall>m<k. \<not> (\<exists>p q. split newline doc ! m = p @ target @ q)"
    using least by (auto simp: P_def ls_def indexOf_iff)
  have left: "\<forall>c'<c. \<not> startsWith (drop c' line) target"
    using indexOf_least [OF _ found] by (simp add: c_def)
  have lfree: "\<forall>l\<in>set ls. newline \<notin> set l"
    by (auto simp: ls_def dest: split_lines_free)
  have tfree: "newline \<notin> set target"
  proof -
    from line_eq have "set target \<subseteq> set line" by (metis set_append sup.cobounded1 sup.coboundedI2)
    moreover from kl lfree have "newline \<notin> set line" by (simp add: line_def)
    ultimately show ?thesis by blast
  qed
  have first: "\<forall>p' q'. doc = p' @ target @ q' \<longrightarrow> length pre \<le> length p'"
  proof (intro allI impI)
    fix p' q'
    assume "doc = p' @ target @ q'"
    then have "array_join [newline] ls = p' @ target @ q'"
      by (simp add: ls_def array_join_split)
    from occurrence_in_one_line [OF _ lfree tfree this]
    obtain m c' where m: "m < length ls"
      and lp: "length p' = (\<Sum>l\<leftarrow>take m ls. Suc (length l)) + c'"
      and sw': "startsWith (drop c' (ls ! m)) target"
      by (auto simp: ls_def split_not_Nil)
    from sw' obtain r where "drop c' (ls ! m) = target @ r" by (auto simp: startsWith_iff)
    then have "ls ! m = take c' (ls ! m) @ target @ r" by (metis append_take_drop_id)
    then have "P m" unfolding P_def indexOf_iff by blast
    with least have km: "k \<le> m" by (meson not_less)
    show "length pre \<le> length p'"
    proof (cases "m = k")
      case True
      with sw' left have "c \<le> c'" by (auto simp: line_def not_less [symmetric])
      with True lp lpre show ?thesis by simp
    next
      case False
      with km have "k < m" by simp
      from m have "m \<le> length ls" by simp
      from offset_mono [OF \<open>k < m\<close> this] cl lp lpre show ?thesis
        by (simp add: line_def)
    qed
  qed
  from ki top line_eq left off doc_eq first res show ?thesis
    unfolding line_def ls_def by (metis (no_types, lifting))
qed

lemma replaceFirstOccurrence_no_line:
  assumes "\<forall>j<length (split newline doc). indexOf (split newline doc ! j) target = - 1"
  shows "replaceFirstOccurrence doc target replacement = doc"
  unfolding replaceFirstOccurrence_def using assms by (intro loop_skips) simp

lemma split_two_placeholders:
  "split newline two_placeholders = [''a ![Uploading file...abc]()'', ''![Uploading file...abc]() b'']"
  by (simp add: two_placeholders_def)

section \<open>The concrete inputs, evaluated\<close>

lemma getOS_mac_host: "getOS (appVersion mac_host) = ''MacOS''"
  by (simp add: mac_host_def getOS_def startsWith_def)

lemma getOS_root_folder_host: "getOS (appVersion root_folder_host) = ''MacOS''"
  using getOS_mac_host by (simp add: root_folder_host_def)

lemma getOS_half_draw_host: "getOS (appVersion half_draw_host) = ''MacOS''"
  using getOS_root_folder_host by (simp add: half_draw_host_def)

lemma getOS_windows_host: "getOS (appVersion windows_host) = ''Windows''"
  by (simp add: windows_host_def getOS_def startsWith_def)

lemma not_image_mac_host: "\<not> isCopyImageFile (node cwd) mac_host"
  using getOS_mac_host
  by (simp add: isCopyImageFile_def isAssetTypeAnImage_def Let_def node_def js_replace_def
      posix_extname_def ascii_toLowerCase_def mac_host_def)




lemma posix_join_attachments:
  "posix_join ''/Users/me/vault'' ''attachments'' = ''/Users/me/vault/attachments''"
  by (simp add: posix_join_def posix_normalize_def normalizeString_def normalize_step_def)


text \<open>With a percent sign in the text, \<open>decodeURI\<close> gives another text or raises.\<close>

lemma char_of_32: "char_of (32::nat) = CHR '' ''"
  by (simp add: char_of_def bit_0 bit_Suc)

lemma decodeURI_percent_vault:
  "utf8_decodeURI ''/Users/me/my%20vault/notes'' = Inr ''/Users/me/my vault/notes''"
  by (simp add: decode_escape_def read_escape_def hexdigit_def uri_reserved_def char_of_32)

lemma decodeURI_bare_percent:
  "utf8_decodeURI ''/Users/me/100%/notes'' = Inl URIError"
  by (simp add: decode_escape_def read_escape_def hexdigit_def)


lemma getFileAssetPath_root_folder_host:
  "getFileAssetPath (node ''/'') root_folder_host = Inr ''/Users/me/vault/attachments''"
  by (simp add: getFileAssetPath_def root_folder_host_def mac_host_def note_file_def
      startsWith_def node_def posix_join_attachments)

lemma getFileAssetPath_half_draw_host:
  "getFileAssetPath (node ''/'') half_draw_host = Inr ''/Users/me/vault/attachments''"
  by (simp add: getFileAssetPath_def half_draw_host_def root_folder_host_def mac_host_def
      note_file_def startsWith_def node_def posix_join_attachments)

lemma zeroFill_numeral:
  "zeroFill (numeral k) n = zeroFill (pred_numeral k) (n div 10) @ [digit n]"
proof -
  have "zeroFill (Suc (pred_numeral k)) n = zeroFill (pred_numeral k) (n div 10) @ [digit n]"
    by (rule zeroFill.simps)
  then show ?thesis by (simp only: numeral_eq_Suc [symmetric])
qed

text \<open>The date of the names: a hyphen, four, two and two digits, a hyphen.\<close>

lemma format_date_YYYYMMDD:
  "year d \<le> 9999 \<Longrightarrow>
   format_date ''-YYYYMMDD-'' d
     = ''-'' @ zeroFill 4 (year d) @ zeroFill 2 (month d) @ zeroFill 2 (day d) @ ''-''"
  by simp

lemma date_20240309:
  "format_date ''-YYYYMMDD-'' \<lparr>year = 2024, month = 3, day = 9\<rparr> = ''-20240309-''"
  by (simp add: zeroFill_numeral digit_def)

lemma randomPrefix_root_folder_host:
  "randomPrefix (node ''/'') root_folder_host = ''vault-20240309-q8x2k5m''"
  by (simp add: randomPrefix_def root_folder_host_def mac_host_def node_def substr_def
      zeroFill_numeral digit_def)

lemma randomPrefix_half_draw_host:
  "randomPrefix (node ''/'') half_draw_host = ''vault-20240309-i''"
  by (simp add: randomPrefix_def half_draw_host_def root_folder_host_def mac_host_def node_def
      substr_def zeroFill_numeral digit_def)

lemma encodeURI_my_notes:
  "utf8_encodeURI ''/Users/me/vault/my notes/vault-20240309-q8x2k5m.avif''
     = Inr ''/Users/me/vault/my%20notes/vault-20240309-q8x2k5m.avif''"
  by (simp add: utf8_encodeURI_def uri_unescaped_def uri_reserved_def hexchar_def)

section \<open>General facts about the handler\<close>

lemma pasteCondition_raises:
  "\<not> isCopyImageFile L H \<Longrightarrow> files evt = [] \<Longrightarrow> pasteCondition L H evt = Inl TypeError"
  by (simp add: pasteCondition_def)

lemma pasteCondition_true:
  "isCopyImageFile L H \<or> files evt \<noteq> [] \<Longrightarrow> pasteCondition L H evt = Inr True"
  by (auto simp: pasteCondition_def)

text \<open>The branch that logs "cannot paste" is never taken.\<close>

lemma pasteCondition_never_false: "pasteCondition L H evt \<noteq> Inr False"
  by (cases "files evt") (auto simp: pasteCondition_def)

lemma isCopyImageFile_macos:
  "getOS (appVersion H) = ''MacOS'' \<Longrightarrow>
   isCopyImageFile L H \<longleftrightarrow>
     toLowerCase L
       (path_extname L (js_replace (clipboard_read H ''public.file-url'') ''file://'' []))
       \<in> set [''.png'', ''.jpg'', ''.jpeg'', ''.bmp'', ''.gif'', ''.svg'', ''.tiff'']"
  by (simp add: isCopyImageFile_def isAssetTypeAnImage_def Let_def)

lemma getAvifPasteFile_ok:
  assumes "getFileAssetPath L H = Inr dir"
  shows "getAvifPasteFile L H st =
           Inr (dir @ ''/'' @ randomPrefix L H @ ''.avif'',
                st\<lparr>console := console st @
                      [Debug ''pngpath:'' (randomPrefix L H @ ''.png''),
                       Debug ''avifpath:'' (randomPrefix L H @ ''.avif''),
                       Debug ''full avifpath:'' (dir @ ''/'' @ randomPrefix L H @ ''.avif''),
                       Debug ''full avif exec path:'' (settings_avifPath H)],
                   spawned := spawned st @ [''/usr/local/bin/pngpaste /tmp/'' @ randomPrefix L H @ ''.png''],
                   pending := pending st @
                     [(''/usr/local/bin/pngpaste /tmp/'' @ randomPrefix L H @ ''.png'',
                       AfterDump (randomPrefix L H @ ''.png'')
                         (dir @ ''/'' @ randomPrefix L H @ ''.avif''))]\<rparr>)"
  using assms by (simp add: getAvifPasteFile_def Let_def console_log_def execute_def)

lemma pasteHandler_image:
  assumes "getOS (appVersion H) = ''MacOS''" and "pasteCondition L H evt = Inr True"
    and "getFileAssetPath L H = Inr dir"
  shows "pasteHandler L H evt st =
           Inr (st\<lparr>console := console st @
                      [Log ''pasting image'',
                       Debug ''pngpath:'' (randomPrefix L H @ ''.png''),
                       Debug ''avifpath:'' (randomPrefix L H @ ''.avif''),
                       Debug ''full avifpath:'' (dir @ ''/'' @ randomPrefix L H @ ''.avif''),
                       Debug ''full avif exec path:'' (settings_avifPath H)],
                   spawned := spawned st @ [''/usr/local/bin/pngpaste /tmp/'' @ randomPrefix L H @ ''.png''],
                   pending := pending st @
                     [(''/usr/local/bin/pngpaste /tmp/'' @ randomPrefix L H @ ''.png'',
                       AfterDump (randomPrefix L H @ ''.png'')
                         (dir @ ''/'' @ randomPrefix L H @ ''.avif''))],
                   defaultPrevented := True\<rparr>)"
  using assms by (simp add: pasteHandler_def getAvifPasteFile_ok console_log_def)

lemma paste_then_dump_ends_image:
  assumes "getOS (appVersion H) = ''MacOS''" and "pasteCondition L H evt = Inr True"
    and "getFileAssetPath L H = Inr dir"
  shows "paste_then_dump_ends L H evt r st =
           Inr (st\<lparr>console := console st @
                      [Log ''pasting image'',
                       Debug ''pngpath:'' (randomPrefix L H @ ''.png''),
                       Debug ''avifpath:'' (randomPrefix L H @ ''.avif''),
                       Debug ''full avifpath:'' (dir @ ''/'' @ randomPrefix L H @ ''.avif''),
                       Debug ''full avif exec path:'' (settings_avifPath H),
                       LogExec r],
                   spawned := spawned st @
                     [''/usr/local/bin/pngpaste /tmp/'' @ randomPrefix L H @ ''.png'',
                      settings_avifPath H @ '' --fast -e /tmp/'' @ randomPrefix L H @ ''.png''
                        @ '' -o '' @ [CHR 0x22] @ dir @ ''/'' @ randomPrefix L H @ ''.avif''
                        @ [CHR 0x22]],
                   pending := pending st @
                     [(settings_avifPath H @ '' --fast -e /tmp/'' @ randomPrefix L H @ ''.png''
                        @ '' -o '' @ [CHR 0x22] @ dir @ ''/'' @ randomPrefix L H @ ''.avif''
                        @ [CHR 0x22],
                       AfterEncode (dir @ ''/'' @ randomPrefix L H @ ''.avif''))],
                   defaultPrevented := True\<rparr>)"
  by (simp add: paste_then_dump_ends_def pasteHandler_image [OF assms] exec_done_def
      console_log_def execute_def)

section \<open>The claims\<close>

text \<open>
  C1 (the code departs from the claim): on macOS, with an empty file list and no image
  file URL on the clipboard, the paste condition does not answer false: reading the type
  of the first file raises a \<open>TypeError\<close>, and the paste handler ends with it.
\<close>

theorem pasteHandler_raises_on_empty_file_list:
  assumes "getOS (appVersion H) = ''MacOS''" and "\<not> isCopyImageFile L H"
    and "files evt = []"
  shows "pasteCondition L H evt = Inl TypeError \<and> pasteHandler L H evt st = Inl TypeError"
  using assms by (simp add: pasteHandler_def pasteCondition_raises)

theorem pasteHandler_raises_on_empty_file_list_witness:
  "getOS (appVersion mac_host) = ''MacOS''
   \<and> \<not> isCopyImageFile (node ''/'') mac_host
   \<and> files text_paste = []
   \<and> pasteCondition (node ''/'') mac_host text_paste = Inl TypeError
   \<and> pasteHandler (node ''/'') mac_host text_paste idle_state = Inl TypeError"
proof -
  have f: "files text_paste = []" by (simp add: text_paste_def)
  from pasteHandler_raises_on_empty_file_list [OF getOS_mac_host not_image_mac_host f]
    getOS_mac_host not_image_mac_host f
  show ?thesis by blast
qed

text \<open>
  C2 (the claim as stated fails): Job 1 ends with exit status 1, and the encoder is
  started all the same: both commands have been given to \<open>child_process.exec\<close>.
\<close>

theorem encoder_started_after_failed_dump:
  "exec_err failed_dump = Some (ExitStatus 1)
   \<and> map_sum id spawned
        (paste_then_dump_ends (node ''/'') root_folder_host image_paste failed_dump idle_state)
     = Inr [''/usr/local/bin/pngpaste /tmp/vault-20240309-q8x2k5m.png'',
            ''/Users/me/go/bin/avif --fast -e /tmp/vault-20240309-q8x2k5m.png -o ''
              @ [CHR 0x22] @ ''/Users/me/vault/attachments/vault-20240309-q8x2k5m.avif''
              @ [CHR 0x22]]"
proof -
  have c: "pasteCondition (node ''/'') root_folder_host image_paste = Inr True"
    by (rule pasteCondition_true) (simp add: image_paste_def)
  show ?thesis
    by (simp add: paste_then_dump_ends_image [OF getOS_root_folder_host c
          getFileAssetPath_root_folder_host] randomPrefix_root_folder_host)
      (simp add: failed_dump_def idle_state_def root_folder_host_def mac_host_def)
qed

text \<open>
  C2, amended: the paste handler starts Job 1 only; when Job 1 ends, with whatever result
  (exit status 0, a nonzero exit status or an execution error), Job 2 is started, once,
  with the encoder's command line.
\<close>

theorem encoder_started_whenever_dump_ends:
  assumes "getOS (appVersion H) = ''MacOS''" and "pasteCondition L H evt = Inr True"
    and "getFileAssetPath L H = Inr dir"
  shows "\<exists>st1. pasteHandler L H evt st = Inr st1
           \<and> spawned st1 = spawned st @ [''/usr/local/bin/pngpaste /tmp/'' @ randomPrefix L H @ ''.png'']
           \<and> (\<forall>r. \<exists>st2. paste_then_dump_ends L H evt r st = Inr st2
                  \<and> spawned st2 = spawned st1 @
                      [settings_avifPath H @ '' --fast -e /tmp/'' @ randomPrefix L H @ ''.png''
                         @ '' -o '' @ [CHR 0x22] @ dir @ ''/'' @ randomPrefix L H @ ''.avif''
                         @ [CHR 0x22]])"
proof -
  note handler = pasteHandler_image [OF assms, of st]
  have ended: "\<exists>st2. paste_then_dump_ends L H evt r st = Inr st2
      \<and> spawned st2 =
          (spawned st @ [''/usr/local/bin/pngpaste /tmp/'' @ randomPrefix L H @ ''.png'']) @
          [settings_avifPath H @ '' --fast -e /tmp/'' @ randomPrefix L H @ ''.png''
             @ '' -o '' @ [CHR 0x22] @ dir @ ''/'' @ randomPrefix L H @ ''.avif''
             @ [CHR 0x22]]" for r
    by (simp add: paste_then_dump_ends_image [OF assms])
  from handler ended show ?thesis by simp
qed

theorem encoder_started_whenever_dump_ends_witness:
  "getOS (appVersion root_folder_host) = ''MacOS''
   \<and> pasteCondition (node ''/'') root_folder_host image_paste = Inr True
   \<and> getFileAssetPath (node ''/'') root_folder_host = Inr ''/Users/me/vault/attachments''
   \<and> (\<exists>st1. pasteHandler (node ''/'') root_folder_host image_paste idle_state = Inr st1
           \<and> spawned st1 = [''/usr/local/bin/pngpaste /tmp/vault-20240309-q8x2k5m.png'']
           \<and> (\<exists>st2. paste_then_dump_ends (node ''/'') root_folder_host image_paste
                        failed_dump idle_state = Inr st2
                  \<and> spawned st2 = spawned st1 @
                      [''/Users/me/go/bin/avif --fast -e /tmp/vault-20240309-q8x2k5m.png -o ''
                         @ [CHR 0x22] @ ''/Users/me/vault/attachments/vault-20240309-q8x2k5m.avif''
                         @ [CHR 0x22]]))"
proof -
  have c: "pasteCondition (node ''/'') root_folder_host image_paste = Inr True"
    by (rule pasteCondition_true) (simp add: image_paste_def)
  have s: "spawned idle_state = []" by (simp add: idle_state_def)
  have a: "settings_avifPath root_folder_host = ''/Users/me/go/bin/avif''"
    by (simp add: root_folder_host_def mac_host_def)
  from encoder_started_whenever_dump_ends [OF getOS_root_folder_host c
      getFileAssetPath_root_folder_host, of idle_state]
  obtain st1 where h: "pasteHandler (node ''/'') root_folder_host image_paste idle_state = Inr st1"
    "spawned st1 = [''/usr/local/bin/pngpaste /tmp/vault-20240309-q8x2k5m.png'']"
    "\<forall>r. \<exists>st2. paste_then_dump_ends (node ''/'') root_folder_host image_paste r idle_state = Inr st2
         \<and> spawned st2 = spawned st1 @
              [''/Users/me/go/bin/avif --fast -e /tmp/vault-20240309-q8x2k5m.png -o ''
                 @ [CHR 0x22] @ ''/Users/me/vault/attachments/vault-20240309-q8x2k5m.avif''
                 @ [CHR 0x22]]"
    by (auto simp: randomPrefix_root_folder_host s a)
  from h(3) have "\<exists>st2. paste_then_dump_ends (node ''/'') root_folder_host image_paste
                        failed_dump idle_state = Inr st2
         \<and> spawned st2 = spawned st1 @
              [''/Users/me/go/bin/avif --fast -e /tmp/vault-20240309-q8x2k5m.png -o ''
                 @ [CHR 0x22] @ ''/Users/me/vault/attachments/vault-20240309-q8x2k5m.avif''
                 @ [CHR 0x22]]" ..
  with h(1,2) getOS_root_folder_host c getFileAssetPath_root_folder_host
  show ?thesis by blast
qed

text \<open>
  C3 (the code departs from the claim): on macOS the paste condition equals the
  disjunction of (a), (b) and (c) whenever the clipboard holds an image file URL or the
  file list is not empty. With neither, the disjunction is false and the condition is no
  decision at all: it raises a \<open>TypeError\<close>.
\<close>

theorem pasteCondition_versus_disjunction:
  assumes "getOS (appVersion H) = ''MacOS''"
  shows "(isCopyImageFile L H \<or> files evt \<noteq> [] \<longrightarrow>
            pasteCondition L H evt = Inr (macos_decision_spec L H evt))
       \<and> (\<not> isCopyImageFile L H \<and> files evt = [] \<longrightarrow>
            pasteCondition L H evt = Inl TypeError \<and> \<not> macos_decision_spec L H evt)"
  using isCopyImageFile_macos [OF assms, of L]
  by (auto simp: pasteCondition_def macos_decision_spec_def)

theorem pasteCondition_versus_disjunction_witness:
  "pasteCondition (node ''/'') mac_host image_paste
     = Inr (macos_decision_spec (node ''/'') mac_host image_paste)
   \<and> pasteCondition (node ''/'') mac_host text_paste = Inl TypeError
   \<and> \<not> macos_decision_spec (node ''/'') mac_host text_paste"
proof -
  have i: "files image_paste \<noteq> []" by (simp add: image_paste_def)
  have t: "files text_paste = []" by (simp add: text_paste_def)
  from pasteCondition_versus_disjunction [OF getOS_mac_host, of "node ''/''" image_paste] i
    pasteCondition_versus_disjunction [OF getOS_mac_host, of "node ''/''" text_paste] t
    not_image_mac_host [of "''/''"]
  show ?thesis by blast
qed

text \<open>
  C4: on every platform other than macOS the paste handler returns after one line on the
  console: it starts no process, leaves the editor as it is and does not prevent the
  default paste, whatever the clipboard holds.
\<close>

theorem pasteHandler_declines_off_macos:
  assumes "getOS (appVersion H) \<noteq> ''MacOS''"
  shows "\<exists>st'. pasteHandler L H evt st = Inr st'
           \<and> st' = st\<lparr>console := console st @
                        [Log (''not macos, pic won'' @ [CHR 0x27] @ ''t be processed'')]\<rparr>
           \<and> spawned st' = spawned st \<and> pending st' = pending st
           \<and> editor st' = editor st \<and> defaultPrevented st' = defaultPrevented st"
  using assms by (simp add: pasteHandler_def console_log_def)

theorem pasteHandler_declines_off_macos_witness:
  "getOS (appVersion windows_host) \<noteq> ''MacOS''
   \<and> (\<exists>st'. pasteHandler (node ''/'') windows_host image_paste idle_state = Inr st'
           \<and> spawned st' = spawned idle_state \<and> pending st' = pending idle_state
           \<and> editor st' = editor idle_state
           \<and> defaultPrevented st' = defaultPrevented idle_state)"
proof -
  have w: "getOS (appVersion windows_host) \<noteq> ''MacOS''"
    by (simp add: getOS_windows_host)
  from pasteHandler_declines_off_macos [OF w, of "node ''/''" image_paste idle_state] w
  show ?thesis by blast
qed




text \<open>
  C6: when the placeholder occurs on more than one line of the document,
  \<open>replaceFirstOccurrence\<close> replaces one span and nothing else: the document is
  \<open>pre @ target @ post\<close> and becomes \<open>pre @ replacement @ post\<close>, where the span
  starts in line \<open>k\<close> at column \<open>c\<close>, no line above \<open>k\<close> holds the placeholder, in line
  \<open>k\<close> it does not start left of \<open>c\<close>, and nowhere in the document does it start
  before the span.
\<close>

theorem replaceFirstOccurrence_first_span:
  assumes "i < length (split newline doc)" and "j < length (split newline doc)" and "i \<noteq> j"
    and "\<exists>p q. split newline doc ! i = p @ target @ q"
    and "\<exists>p q. split newline doc ! j = p @ target @ q"
  shows "\<exists>k c pre post.
           k < length (split newline doc)
         \<and> (\<forall>m<k. \<not> (\<exists>p q. split newline doc ! m = p @ target @ q))
         \<and> (\<exists>q. split newline doc ! k = take c (split newline doc ! k) @ target @ q)
         \<and> (\<forall>c'<c. \<not> startsWith (drop c' (split newline doc ! k)) target)
         \<and> length pre = posToOffset doc (k, c)
         \<and> doc = pre @ target @ post
         \<and> (\<forall>p' q'. doc = p' @ target @ q' \<longrightarrow> length pre \<le> length p')
         \<and> replaceFirstOccurrence doc target replacement = pre @ replacement @ post"
proof -
  from replaceFirstOccurrence_at_first [OF assms(1) assms(4), of replacement]
  obtain k c pre post where "k \<le> i"
    and rest: "(\<forall>m<k. \<not> (\<exists>p q. split newline doc ! m = p @ target @ q))
         \<and> (\<exists>q. split newline doc ! k = take c (split newline doc ! k) @ target @ q)
         \<and> (\<forall>c'<c. \<not> startsWith (drop c' (split newline doc ! k)) target)
         \<and> length pre = posToOffset doc (k, c)
         \<and> doc = pre @ target @ post
         \<and> (\<forall>p' q'. doc = p' @ target @ q' \<longrightarrow> length pre \<le> length p')
         \<and> replaceFirstOccurrence doc target replacement = pre @ replacement @ post"
    by blast
  from \<open>k \<le> i\<close> assms(1) have "k < length (split newline doc)" by simp
  with rest show ?thesis by blast
qed

theorem replaceFirstOccurrence_first_span_witness:
  "(\<exists>p q. split newline two_placeholders ! 0 = p @ progressTextFor ''abc'' @ q)
   \<and> (\<exists>p q. split newline two_placeholders ! 1 = p @ progressTextFor ''abc'' @ q)
   \<and> (\<exists>k c pre post.
           k < length (split newline two_placeholders)
         \<and> length pre = posToOffset two_placeholders (k, c)
         \<and> two_placeholders = pre @ progressTextFor ''abc'' @ post
         \<and> replaceFirstOccurrence two_placeholders (progressTextFor ''abc'') ''![](u.avif)''
             = pre @ ''![](u.avif)'' @ post)
   \<and> embedMarkDownImage two_placeholders ''abc'' ''u.avif''
       = ''a ![](u.avif)'' @ [newline] @ ''![Uploading file...abc]() b''"
proof -
  have l: "(0::nat) < length (split newline two_placeholders)"
    "(1::nat) < length (split newline two_placeholders)" "(0::nat) \<noteq> 1"
    by (simp_all add: split_two_placeholders)
  have a: "\<exists>p q. split newline two_placeholders ! 0 = p @ progressTextFor ''abc'' @ q"
    unfolding indexOf_iff [symmetric]
    by (simp add: split_two_placeholders progressTextFor_def startsWith_def)
  have b: "\<exists>p q. split newline two_placeholders ! 1 = p @ progressTextFor ''abc'' @ q"
    unfolding indexOf_iff [symmetric]
    by (simp add: split_two_placeholders progressTextFor_def startsWith_def)
  have c: "embedMarkDownImage two_placeholders ''abc'' ''u.avif''
       = ''a ![](u.avif)'' @ [newline] @ ''![Uploading file...abc]() b''"
    by (simp add: embedMarkDownImage_def replaceFirstOccurrence_def split_two_placeholders
        replaceFirstOccurrence_loop.simps progressTextFor_def startsWith_def replaceRange_def
        posToOffset_def two_placeholders_def)
  from replaceFirstOccurrence_first_span [OF l a b, of "''![](u.avif)''"] a b c
  show ?thesis by blast
qed

text \<open>
  C7: when the placeholder does not occur in the document, \<open>replaceFirstOccurrence\<close>
  leaves the document as it is. (The function has no failing branch: it returns the text.)
\<close>

theorem replaceFirstOccurrence_absent_noop:
  assumes "\<not> (\<exists>p q. doc = p @ target @ q)"
  shows "replaceFirstOccurrence doc target replacement = doc"
proof (rule replaceFirstOccurrence_no_line, intro allI impI)
  fix j
  assume j: "j < length (split newline doc)"
  show "indexOf (split newline doc ! j) target = - 1"
  proof (rule ccontr)
    assume "indexOf (split newline doc ! j) target \<noteq> - 1"
    then have "\<exists>p q. split newline doc ! j = p @ target @ q" by (simp add: indexOf_iff)
    from line_occurrence_in_text [OF j this] assms show False by blast
  qed
qed

theorem replaceFirstOccurrence_absent_noop_witness:
  "\<not> (\<exists>p q. ''# Note'' @ [newline] @ ''no token here'' = p @ progressTextFor ''abc'' @ q)
   \<and> replaceFirstOccurrence (''# Note'' @ [newline] @ ''no token here'') (progressTextFor ''abc'')
        ''![](u.avif)'' = ''# Note'' @ [newline] @ ''no token here''"
proof -
  have a: "\<not> (\<exists>p q. ''# Note'' @ [newline] @ ''no token here'' = p @ progressTextFor ''abc'' @ q)"
    unfolding indexOf_iff [symmetric]
    by (simp add: progressTextFor_def startsWith_def)
  from replaceFirstOccurrence_absent_noop [OF a] a show ?thesis by blast
qed

text \<open>
  C8 (the claim as stated fails): when \<open>Math.random()\<close> gives 0.5 the token is the one
  character \<open>i\<close>, not seven.
\<close>

theorem random_token_of_one_character:
  "random36 half_draw_host = ''1.i''
   \<and> substr (random36 half_draw_host) 2 7 = ''i''
   \<and> randomPrefix (node ''/'') half_draw_host = ''vault-20240309-i''
   \<and> map_sum id fst (getAvifPasteFile (node ''/'') half_draw_host idle_state)
       = Inr ''/Users/me/vault/attachments/vault-20240309-i.avif''"
  by (simp add: getAvifPasteFile_ok [OF getFileAssetPath_half_draw_host]
      randomPrefix_half_draw_host)
    (simp add: half_draw_host_def substr_def)

text \<open>
  C8, amended: the names start with the vault's name, the date as \<open>-YYYYMMDD-\<close> and a
  token of at most seven characters, the third to the ninth of
  \<open>(Math.random() + 1).toString(36)\<close> (seven when that string has nine or more). The raw
  image goes to \<open>/tmp\<close> under this name with \<open>.png\<close>, the encoded one to the attachment
  folder under the same name with \<open>.avif\<close>.
\<close>

theorem getAvifPasteFile_names:
  assumes "getFileAssetPath L H = Inr dir"
  shows "\<exists>token st'.
           token = take 7 (drop 2 (random36 H))
         \<and> length token \<le> 7
         \<and> (9 \<le> length (random36 H) \<longrightarrow> length token = 7)
         \<and> randomPrefix L H = getName H @ moment_format L ''-YYYYMMDD-'' (now H) @ token
         \<and> getAvifPasteFile L H st = Inr (dir @ ''/'' @ randomPrefix L H @ ''.avif'', st')
         \<and> spawned st' = spawned st @ [''/usr/local/bin/pngpaste /tmp/'' @ randomPrefix L H @ ''.png'']
         \<and> pending st' = pending st @
              [(''/usr/local/bin/pngpaste /tmp/'' @ randomPrefix L H @ ''.png'',
                AfterDump (randomPrefix L H @ ''.png'') (dir @ ''/'' @ randomPrefix L H @ ''.avif''))]"
proof -
  define token where "token = take 7 (drop 2 (random36 H))"
  have len: "length token \<le> 7" and full: "9 \<le> length (random36 H) \<longrightarrow> length token = 7"
    by (auto simp: token_def)
  have prefix: "randomPrefix L H = getName H @ moment_format L ''-YYYYMMDD-'' (now H) @ token"
    by (simp add: randomPrefix_def substr_def token_def)
  from getAvifPasteFile_ok [OF assms, of st] token_def len full prefix
  show ?thesis by simp
qed

theorem getAvifPasteFile_names_witness:
  "getFileAssetPath (node ''/'') root_folder_host = Inr ''/Users/me/vault/attachments''
   \<and> 9 \<le> length (random36 root_folder_host)
   \<and> randomPrefix (node ''/'') root_folder_host = ''vault-20240309-q8x2k5m''
   \<and> (\<exists>st'. getAvifPasteFile (node ''/'') root_folder_host idle_state
               = Inr (''/Users/me/vault/attachments/vault-20240309-q8x2k5m.avif'', st')
            \<and> spawned st' = [''/usr/local/bin/pngpaste /tmp/vault-20240309-q8x2k5m.png''])"
proof -
  have n: "9 \<le> length (random36 root_folder_host)"
    by (simp add: root_folder_host_def mac_host_def)
  have s: "spawned idle_state = []" by (simp add: idle_state_def)
  from getAvifPasteFile_names [OF getFileAssetPath_root_folder_host, of idle_state]
  have "\<exists>st'. getAvifPasteFile (node ''/'') root_folder_host idle_state
               = Inr (''/Users/me/vault/attachments/vault-20240309-q8x2k5m.avif'', st')
            \<and> spawned st' = [''/usr/local/bin/pngpaste /tmp/vault-20240309-q8x2k5m.png'']"
    by (auto simp: randomPrefix_root_folder_host s)
  with getFileAssetPath_root_folder_host n randomPrefix_root_folder_host
  show ?thesis by blast
qed

text \<open>
  C9: for a path with URI-encoded form \<open>u\<close>, \<open>getFileName\<close> is \<open>file:///\<close> followed by
  \<open>u\<close>, and \<open>insertTemporaryText\<close> puts \<open>![](file:///u)\<close> and a line break in place of
  the selection: the text before the selection is followed by exactly that, nothing stays
  selected and the text after the selection is as it was.
\<close>

theorem insertTemporaryText_embeds:
  assumes "encodeURI L path = Inr u"
  shows "getFileName L path = Inr (''file:///'' @ u)
       \<and> (\<exists>e'. insertTemporaryText L path e = Inr e'
             \<and> e' = replaceSelection (''![]('' @ ''file:///'' @ u @ '')'' @ [newline]) e
             \<and> text_before e' = text_before e @ ''![]('' @ ''file:///'' @ u @ '')'' @ [newline]
             \<and> selection e' = []
             \<and> text_after e' = text_after e
             \<and> getValue e' = text_before e @ ''![]('' @ ''file:///'' @ u @ '')'' @ [newline]
                                @ text_after e)"
  using assms
  by (simp add: getFileName_def insertTemporaryText_def replaceSelection_def getValue_def)

theorem insertTemporaryText_embeds_witness:
  "encodeURI (node ''/'') ''/Users/me/vault/my notes/vault-20240309-q8x2k5m.avif''
     = Inr ''/Users/me/vault/my%20notes/vault-20240309-q8x2k5m.avif''
   \<and> (\<exists>e'. insertTemporaryText (node ''/'')
               ''/Users/me/vault/my notes/vault-20240309-q8x2k5m.avif'' (editor idle_state) = Inr e'
          \<and> getValue e' = ''# Note'' @ [newline]
               @ ''![](file:////Users/me/vault/my%20notes/vault-20240309-q8x2k5m.avif)''
               @ [newline] @ [newline] @ ''end'')"
proof -
  have u: "encodeURI (node ''/'') ''/Users/me/vault/my notes/vault-20240309-q8x2k5m.avif''
     = Inr ''/Users/me/vault/my%20notes/vault-20240309-q8x2k5m.avif''"
    by (simp add: node_def encodeURI_my_notes)
  from insertTemporaryText_embeds [OF u, of "editor idle_state"]
  have "\<exists>e'. insertTemporaryText (node ''/'')
               ''/Users/me/vault/my notes/vault-20240309-q8x2k5m.avif'' (editor idle_state) = Inr e'
          \<and> getValue e' = ''# Note'' @ [newline]
               @ ''![](file:////Users/me/vault/my%20notes/vault-20240309-q8x2k5m.avif)''
               @ [newline] @ [newline] @ ''end''"
    by (auto simp: idle_state_def)
  with u show ?thesis by blast
qed

text \<open>
  C10: \<open>getOS\<close> returns one of the four strings "Windows", "MacOS", "Linux" and
  "Unknown OS", and tests the substrings in the order Win, Mac, X11: it answers "Windows"
  exactly when "Win" occurs, "MacOS" exactly when "Mac" occurs and "Win" does not, "Linux"
  exactly when "X11" occurs and neither of the others does; so an appVersion holding both
  "Win" and "Mac" gives "Windows".
\<close>

theorem getOS_four_values_in_order:
  "getOS v \<in> {''Windows'', ''MacOS'', ''Linux'', ''Unknown OS''}
   \<and> (getOS v = ''Windows'' \<longleftrightarrow> (\<exists>p q. v = p @ ''Win'' @ q))
   \<and> (getOS v = ''MacOS'' \<longleftrightarrow>
        (\<exists>p q. v = p @ ''Mac'' @ q) \<and> \<not> (\<exists>p q. v = p @ ''Win'' @ q))
   \<and> (getOS v = ''Linux'' \<longleftrightarrow>
        (\<exists>p q. v = p @ ''X11'' @ q) \<and> \<not> (\<exists>p q. v = p @ ''Mac'' @ q)
        \<and> \<not> (\<exists>p q. v = p @ ''Win'' @ q))
   \<and> ((\<exists>p q. v = p @ ''Win'' @ q) \<and> (\<exists>p q. v = p @ ''Mac'' @ q) \<longrightarrow> getOS v = ''Windows'')"
  unfolding indexOf_iff [symmetric] by (simp add: getOS_def)

theorem getOS_four_values_in_order_witness:
  "getOS ''5.0 (Macintosh; Windows)'' = ''Windows''
   \<and> (\<exists>p q. ''5.0 (Macintosh; Windows)'' = p @ ''Win'' @ q)
   \<and> (\<exists>p q. ''5.0 (Macintosh; Windows)'' = p @ ''Mac'' @ q)"
proof -
  have w: "\<exists>p q. ''5.0 (Macintosh; Windows)'' = p @ ''Win'' @ q"
    by (rule exI [of _ "''5.0 (Macintosh; ''"], rule exI [of _ "''dows)''"]) simp
  have m: "\<exists>p q. ''5.0 (Macintosh; Windows)'' = p @ ''Mac'' @ q"
    by (rule exI [of _ "''5.0 (''"], rule exI [of _ "''intosh; Windows)''"]) simp
  from getOS_four_values_in_order [of "''5.0 (Macintosh; Windows)''"] w m
  show ?thesis by blast
qed

end
